theory Spec2Isabelle
  imports Complex_Main "HOL-Library.Char_ord" "HOL-Library.List_Lexorder"
    "HOL-Library.Product_Lexorder" "HOL-Library.Log_Nat"
begin

section \<open>Python values and exceptions\<close>

text \<open>
  The exceptions the two programs can raise. \<open>ReError\<close> is \<open>re.error\<close>, which is
  not a \<open>ValueError\<close>.
\<close>

datatype error =
  KeyError | TypeError | ValueError | ReError | ZeroDivisionError | OverflowError

text \<open>
  A value decoded by \<open>json.load\<close> (the type \<open>Any\<close> of the source): \<open>None\<close>, a
  bool, an int, a float, a str, a list or a dict with string keys. A dict is the list of
  its items in insertion order; its keys are distinct. Of a float only the type matters to
  the code, so it is kept as its literal. Characters are the code points below 256.
\<close>

datatype pyval =
    PNone
  | PBool bool
  | PInt int
  | PFloat string
  | PStr string
  | PList "pyval list"
  | PDict "(string \<times> pyval) list"

text \<open>
  \<open>isinstance(x, int)\<close> together with the integer read from \<open>x\<close>: \<open>bool\<close> is a
  subclass of \<open>int\<close>, with \<open>True == 1\<close> and \<open>False == 0\<close>.
\<close>

fun int_value :: "pyval \<Rightarrow> int option" where
  "int_value (PInt n) = Some n"
| "int_value (PBool b) = Some (if b then 1 else 0)"
| "int_value _ = None"

text \<open>\<open>str.isspace\<close> of one character, which is also the class \<open>\s\<close> of \<open>re\<close>.\<close>

definition is_space :: "char \<Rightarrow> bool" where
  "is_space c =
     (let n = (of_char c :: nat)
      in (9 \<le> n \<and> n \<le> 13) \<or> (28 \<le> n \<and> n \<le> 32) \<or> n = 133 \<or> n = 160)"

text \<open>The class \<open>[A-Z]\<close>.\<close>

definition is_upper :: "char \<Rightarrow> bool" where
  "is_upper c = (let n = (of_char c :: nat) in 65 \<le> n \<and> n \<le> 90)"

text \<open>
  A compiled pattern, as the predicate \<open>re.match(pattern, s) is not None\<close> on strings.
\<close>

type_synonym regex = "string \<Rightarrow> bool"

text \<open>
  The pattern \<open>^[A-Z\s]+$\<close>. The class holds the newline, so the \<open>+\<close> takes the whole
  of a string of the class and \<open>$\<close> matches at its end; a character outside the class
  stops the \<open>+\<close> before the end, where \<open>$\<close> fails.
\<close>

definition upper_ws_regex :: regex where
  "upper_ws_regex s = (s \<noteq> [] \<and> list_all (\<lambda>c. is_upper c \<or> is_space c) s)"

text \<open>\<open>max\<close> and \<open>min\<close> of a sequence: a \<open>ValueError\<close> on the empty one.\<close>

fun py_max :: "int list \<Rightarrow> error + int" where
  "py_max [] = Inl ValueError"
| "py_max (x # xs) = Inr (fold max xs x)"

fun py_min :: "int list \<Rightarrow> error + int" where
  "py_min [] = Inl ValueError"
| "py_min (x # xs) = Inr (fold min xs x)"

text \<open>
  \<open>sorted(xs, key=f, reverse=r)\<close>: a stable sort; with \<open>reverse\<close> the order is
  descending and elements with equal keys still keep their order.
\<close>

definition py_sorted :: "('a \<Rightarrow> 'k::linorder) \<Rightarrow> bool \<Rightarrow> 'a list \<Rightarrow> 'a list" where
  "py_sorted f reverse xs = (if reverse then rev (sort_key f (rev xs)) else sort_key f xs)"

text \<open>Sequencing of steps that may raise.\<close>

definition and_then :: "error + 'a \<Rightarrow> ('a \<Rightarrow> error + 'b) \<Rightarrow> error + 'b" where
  "and_then r f = (case r of Inl e \<Rightarrow> Inl e | Inr x \<Rightarrow> f x)"

section \<open>True division of two ints\<close>

text \<open>
  \<open>a / b\<close> on ints is a float: the double nearest to the exact quotient, a tie going
  to the even mantissa, and an \<open>OverflowError\<close> when that is beyond the range of the
  doubles. A float is modelled by the rational number it is.

  \<open>round_half_even\<close> rounds to the nearest integer, a tie to the even one.
\<close>

definition round_half_even :: "rat \<Rightarrow> int" where
  "round_half_even x =
     (let f = \<lfloor>x\<rfloor>; d = x - of_int f
      in if d < 1 / 2 then f else if 1 / 2 < d then f + 1 else if even f then f else f + 1)"

text \<open>
  For \<open>a\<close> and \<open>b\<close> greater than 0, the exponent \<open>e\<close> with
  \<open>2\<^sup>e \<le> a / b < 2\<^sup>e\<^sup>+\<^sup>1\<close>: the difference of the bit lengths, or one less.
\<close>

definition float_exponent :: "int \<Rightarrow> int \<Rightarrow> int" where
  "float_exponent a b =
     (let k = bitlen a - bitlen b
      in if (2::rat) powi k \<le> of_int a / of_int b then k else k - 1)"

text \<open>
  For \<open>a\<close> and \<open>b\<close> greater than 0, the quotient rounded to 53 significant bits: to
  a multiple of the spacing of the doubles at its exponent, which is that of the
  subnormal numbers below the exponent \<open>-1022\<close>.
\<close>

definition float_magnitude :: "int \<Rightarrow> int \<Rightarrow> rat" where
  "float_magnitude a b =
     (let e = max (float_exponent a b) (- 1022); spacing = (2::rat) powi (e - 52)
      in of_int (round_half_even (of_int a / of_int b / spacing)) * spacing)"

definition true_divide :: "int \<Rightarrow> int \<Rightarrow> error + rat" where
  "true_divide a b =
     (if b = 0 then Inl ZeroDivisionError
      else if a = 0 then Inr 0
      else
        let m = float_magnitude \<bar>a\<bar> \<bar>b\<bar>
        in if 2 ^ 1024 \<le> m then Inl OverflowError
           else Inr (if (a < 0) = (b < 0) then m else - m))"


section \<open>CarsProjects: the data model\<close>

datatype CarColor = GREEN | BLACK | WHITE | RED

text \<open>
  The dataclass \<open>Car\<close>. Python does not enforce the annotations of the fields, so the
  types of \<open>model\<close>, of \<open>price\<close> and \<open>mileage\<close>, and of \<open>components\<close> are
  parameters: \<open>Car.from_dict\<close> stores the decoded values as they are, and the service is
  written for the annotated types \<open>str\<close>, \<open>int\<close> and \<open>list[str]\<close>.
\<close>

record ('m, 'n, 'c) Car =
  model :: 'm
  price :: 'n
  color :: CarColor
  mileage :: 'n
  components :: 'c

type_synonym LoadedCar = "(pyval, pyval, pyval) Car"
type_synonym TypedCar = "(string, int, string list) Car"

section \<open>CarsService\<close>

text \<open>
  \<open>get_cars_mileage_than\<close>: the argument is any Python value. The \<open>or\<close> tests
  \<open>isinstance\<close> first, so \<open>mileage < 0\<close> is only evaluated on an int.
\<close>

definition get_cars_mileage_than :: "TypedCar list \<Rightarrow> pyval \<Rightarrow> error + TypedCar list" where
  "get_cars_mileage_than cars m =
     (case int_value m of
        None \<Rightarrow> Inl ValueError
      | Some n \<Rightarrow> if n < 0 then Inl ValueError else Inr [car \<leftarrow> cars. mileage car > n])"

text \<open>
  \<open>get_statistic_price_mileage\<close>: a dict of dicts, here lists of items. The values are
  numbers: \<open>min\<close> and \<open>max\<close> are ints, \<open>avg\<close> is the true division of the sum by
  the length, a float. The entries are evaluated in the order of the source.
\<close>

type_synonym statistic = "(string \<times> (string \<times> rat) list) list"

definition get_statistic_price_mileage :: "TypedCar list \<Rightarrow> error + statistic" where
  "get_statistic_price_mileage cars =
     (if cars = [] then
        Inr [(''price'', [(''avg'', 0), (''min'', 0), (''max'', 0)]),
             (''mileage'', [(''avg'', 0), (''min'', 0), (''max'', 0)])]
      else
        let prices = map price cars; milleages = map mileage cars in
        and_then (true_divide (sum_list prices) (int (length prices))) (\<lambda>price_avg.
        and_then (py_min prices) (\<lambda>price_min.
        and_then (py_max prices) (\<lambda>price_max.
        and_then (true_divide (sum_list milleages) (int (length milleages))) (\<lambda>mileage_avg.
        and_then (py_min milleages) (\<lambda>mileage_min.
        and_then (py_max milleages) (\<lambda>mileage_max.
          Inr [(''price'',
                 [(''avg'', price_avg), (''min'', of_int price_min), (''max'', of_int price_max)]),
               (''mileage'',
                 [(''avg'', mileage_avg), (''min'', of_int mileage_min),
                  (''max'', of_int mileage_max)])])))))))"

definition get_cars_most_expensive :: "TypedCar list \<Rightarrow> error + TypedCar list" where
  "get_cars_most_expensive cars =
     (case py_max (map price cars) of
        Inl e \<Rightarrow> Inl e
      | Inr max_price \<Rightarrow> Inr [car \<leftarrow> cars. price car = max_price])"

text \<open>
  A dict in insertion order: \<open>d[k] = v\<close> replaces the value of a key that is there, in
  its place, and adds a new key at the end.
\<close>

fun dict_set :: "('k \<times> 'v) list \<Rightarrow> 'k \<Rightarrow> 'v \<Rightarrow> ('k \<times> 'v) list" where
  "dict_set [] k v = [(k, v)]"
| "dict_set ((k', v') # d) k v = (if k' = k then (k, v) # d else (k', v') # dict_set d k v)"

text \<open>
  The body of the loop of \<open>get_model_cars_most_expensive\<close>. Reading a missing key of
  the \<open>defaultdict\<close> adds it with an empty list, which the first branch then fills.
\<close>

definition most_expensive_step ::
  "(string \<times> TypedCar list) list \<Rightarrow> TypedCar \<Rightarrow> (string \<times> TypedCar list) list" where
  "most_expensive_step d car =
     (case map_of d (model car) of
        None \<Rightarrow> dict_set d (model car) [car]
      | Some [] \<Rightarrow> dict_set d (model car) [car]
      | Some (first # others) \<Rightarrow>
          (let max_price = price first in
           if price car > max_price then dict_set d (model car) [car]
           else if price car = max_price then dict_set d (model car) ((first # others) @ [car])
           else d))"

definition get_model_cars_most_expensive ::
  "TypedCar list \<Rightarrow> bool \<Rightarrow> (string \<times> TypedCar list) list" where
  "get_model_cars_most_expensive cars descending =
     py_sorted fst descending (fold (\<lambda>car d. most_expensive_step d car) cars [])"

section \<open>CarValidator\<close>

record CarValidator =
  model_regex :: regex
  collection_regex :: regex

text \<open>The defaults of the dataclass, which \<open>main\<close> passes as well.\<close>

definition default_CarValidator :: CarValidator where
  "default_CarValidator = \<lparr>model_regex = upper_ws_regex, collection_regex = upper_ws_regex\<rparr>"

text \<open>
  An error message: the text of the f-string and the values it interpolates. Formatting
  a value never fails; reading it from the record does when the key is missing.
\<close>

datatype message = Message string "pyval list"

type_synonym errors = "(string \<times> message list) list"

definition getitem :: "(string \<times> pyval) list \<Rightarrow> string \<Rightarrow> error + pyval" where
  "getitem data k = (case map_of data k of None \<Rightarrow> Inl KeyError | Some v \<Rightarrow> Inr v)"

fun interpolate :: "(string \<times> pyval) list \<Rightarrow> string list \<Rightarrow> error + pyval list" where
  "interpolate data [] = Inr []"
| "interpolate data (k # ks) =
     (case getitem data k of
        Inl e \<Rightarrow> Inl e
      | Inr v \<Rightarrow> (case interpolate data ks of Inl e \<Rightarrow> Inl e | Inr vs \<Rightarrow> Inr (v # vs)))"

text \<open>
  \<open>errors |= {field: [f'...{data[k1]}...{data[k2]}...']}\<close>: the f-string is evaluated
  first, reading \<open>data[k]\<close> for each key in turn.
\<close>

definition report ::
  "(string \<times> pyval) list \<Rightarrow> errors \<Rightarrow> string \<Rightarrow> string \<Rightarrow> string list \<Rightarrow> error + errors" where
  "report data errors field txt keys =
     (case interpolate data keys of
        Inl e \<Rightarrow> Inl e
      | Inr vals \<Rightarrow> Inr (dict_set errors field [Message txt vals]))"

text \<open>\<open>re.match(pattern, x)\<close>: a \<open>TypeError\<close> when \<open>x\<close> is not a string.\<close>

fun re_match :: "regex \<Rightarrow> pyval \<Rightarrow> error + bool" where
  "re_match rx (PStr s) = Inr (rx s)"
| "re_match rx _ = Inl TypeError"

text \<open>\<open>CarColor[name]\<close>, by the names of the members.\<close>

definition color_of_name :: "string \<Rightarrow> CarColor option" where
  "color_of_name s =
     (if s = ''GREEN'' then Some GREEN
      else if s = ''BLACK'' then Some BLACK
      else if s = ''WHITE'' then Some WHITE
      else if s = ''RED'' then Some RED
      else None)"

text \<open>
  \<open>x in {color.name for color in CarColor}\<close>: membership in a set hashes \<open>x\<close>, a
  \<open>TypeError\<close> for a list or a dict; no other value equals a string.
\<close>

fun in_color_names :: "pyval \<Rightarrow> error + bool" where
  "in_color_names (PStr s) = Inr (color_of_name s \<noteq> None)"
| "in_color_names (PList xs) = Inl TypeError"
| "in_color_names (PDict d) = Inl TypeError"
| "in_color_names _ = Inr False"

text \<open>
  \<open>for comp in x\<close>: the elements of a list, the characters of a string, the keys of a
  dict; a \<open>TypeError\<close> for a value that is not iterable.
\<close>

fun py_iter :: "pyval \<Rightarrow> error + pyval list" where
  "py_iter (PList xs) = Inr xs"
| "py_iter (PStr s) = Inr (map (\<lambda>c. PStr [c]) s)"
| "py_iter (PDict d) = Inr (map (\<lambda>kv. PStr (fst kv)) d)"
| "py_iter _ = Inl TypeError"

text \<open>\<open>isinstance(comp, str) and re.match(regex, comp)\<close>.\<close>

fun component_ok :: "regex \<Rightarrow> pyval \<Rightarrow> bool" where
  "component_ok rx (PStr s) = rx s"
| "component_ok rx _ = False"

text \<open>The five blocks of \<open>CarValidator.validate\<close>, each from the errors so far.\<close>

definition validate_model :: "CarValidator \<Rightarrow> (string \<times> pyval) list \<Rightarrow> errors \<Rightarrow> error + errors" where
  "validate_model v data errors =
     (case map_of data ''model'' of
        None \<Rightarrow> report data errors ''model'' ''not found'' []
      | Some m \<Rightarrow>
          and_then (re_match (model_regex v) m) (\<lambda>matched.
            if \<not> matched then report data errors ''model'' ''does not match regex'' [''model'']
            else Inr errors))"

definition validate_price :: "(string \<times> pyval) list \<Rightarrow> errors \<Rightarrow> error + errors" where
  "validate_price data errors =
     (case map_of data ''price'' of
        None \<Rightarrow> report data errors ''price'' ''not found for model'' [''model'']
      | Some p \<Rightarrow>
          (case int_value p of
             None \<Rightarrow> report data errors ''price'' ''is not a number'' [''model'', ''price'']
           | Some n \<Rightarrow>
               if n \<le> 0 then report data errors ''price'' ''must be greater than 0'' [''model'']
               else Inr errors))"

definition validate_color :: "(string \<times> pyval) list \<Rightarrow> errors \<Rightarrow> error + errors" where
  "validate_color data errors =
     (case map_of data ''color'' of
        None \<Rightarrow> report data errors ''color'' ''not found for model'' [''model'']
      | Some c \<Rightarrow>
          and_then (in_color_names c) (\<lambda>known.
            if \<not> known then report data errors ''color'' ''not found color'' [''color'', ''model'']
            else Inr errors))"

text \<open>The message of a mileage that is not an int interpolates \<open>data["price"]\<close>.\<close>

definition validate_mileage :: "(string \<times> pyval) list \<Rightarrow> errors \<Rightarrow> error + errors" where
  "validate_mileage data errors =
     (case map_of data ''mileage'' of
        None \<Rightarrow> report data errors ''mileage'' ''not found for model'' [''model'']
      | Some p \<Rightarrow>
          (case int_value p of
             None \<Rightarrow> report data errors ''mileage'' ''is not a number'' [''model'', ''price'']
           | Some n \<Rightarrow>
               if n \<le> 0 then report data errors ''mileage'' ''must be greater than 0'' [''model'']
               else Inr errors))"

definition validate_components ::
  "CarValidator \<Rightarrow> (string \<times> pyval) list \<Rightarrow> errors \<Rightarrow> error + errors" where
  "validate_components v data errors =
     (case map_of data ''components'' of
        None \<Rightarrow> report data errors ''components'' ''not found for model'' [''model'']
      | Some cs \<Rightarrow>
          and_then (py_iter cs) (\<lambda>comps.
            if \<not> list_all (component_ok (collection_regex v)) comps
            then report data errors ''components'' ''Invalid components'' [''model'', ''components'']
            else Inr errors))"

text \<open>
  \<open>CarValidator.validate\<close>. On a record that is not a dict every path ends in a
  \<open>TypeError\<close>: at \<open>"model" not in data\<close> for a value that is no container, and at the
  first \<open>data["model"]\<close> or \<open>data["price"]\<close> for a string or a list.
\<close>

definition CarValidator_validate :: "CarValidator \<Rightarrow> pyval \<Rightarrow> error + (bool \<times> errors)" where
  "CarValidator_validate v record =
     (case record of
        PDict data \<Rightarrow>
          and_then (validate_model v data []) (\<lambda>e1.
          and_then (validate_price data e1) (\<lambda>e2.
          and_then (validate_color data e2) (\<lambda>e3.
          and_then (validate_mileage data e3) (\<lambda>e4.
          and_then (validate_components v data e4) (\<lambda>errors.
            Inr (length errors = 0, errors))))))
      | _ \<Rightarrow> Inl TypeError)"

section \<open>Car.from_dict and CarsFileReader\<close>

text \<open>\<open>CarColor[x]\<close>: a \<open>KeyError\<close> for a value that is no member name.\<close>

fun color_lookup :: "pyval \<Rightarrow> error + CarColor" where
  "color_lookup (PStr s) = (case color_of_name s of None \<Rightarrow> Inl KeyError | Some c \<Rightarrow> Inr c)"
| "color_lookup (PList xs) = Inl TypeError"
| "color_lookup (PDict d) = Inl TypeError"
| "color_lookup _ = Inl KeyError"

definition from_dict :: "pyval \<Rightarrow> error + LoadedCar" where
  "from_dict record =
     (case record of
        PDict data \<Rightarrow>
          and_then (getitem data ''model'') (\<lambda>m.
          and_then (getitem data ''price'') (\<lambda>p.
          and_then (getitem data ''color'') (\<lambda>c.
          and_then (color_lookup c) (\<lambda>col.
          and_then (getitem data ''mileage'') (\<lambda>mil.
          and_then (getitem data ''components'') (\<lambda>comps.
            Inr \<lparr>model = m, price = p, color = col, mileage = mil, components = comps\<rparr>))))))
      | _ \<Rightarrow> Inl TypeError)"

record CarsFileReader =
  car_validator :: CarValidator
  stop_loading_if_error :: bool

text \<open>
  The loop of \<open>get_cars\<close> over the records read from the file, from the cars appended
  so far. The warnings it logs do not change what it returns.
\<close>

fun get_cars_loop :: "CarsFileReader \<Rightarrow> pyval list \<Rightarrow> LoadedCar list \<Rightarrow> error + LoadedCar list" where
  "get_cars_loop r [] cars = Inr cars"
| "get_cars_loop r (car # rest) cars =
     (case CarValidator_validate (car_validator r) car of
        Inl e \<Rightarrow> Inl e
      | Inr (is_valid, errors) \<Rightarrow>
          if \<not> is_valid \<and> CarsFileReader.stop_loading_if_error r then Inl ValueError
          else if is_valid then
            (case from_dict car of
               Inl e \<Rightarrow> Inl e
             | Inr c \<Rightarrow> get_cars_loop r rest (cars @ [c]))
          else get_cars_loop r rest cars)"

definition get_cars :: "CarsFileReader \<Rightarrow> pyval list \<Rightarrow> error + LoadedCar list" where
  "get_cars r cars_data = get_cars_loop r cars_data []"

text \<open>A non-empty string of upper-case letters and whitespace.\<close>

definition upper_ws_text :: "pyval \<Rightarrow> bool" where
  "upper_ws_text x = (\<exists>s. x = PStr s \<and> s \<noteq> [] \<and> (\<forall>c\<in>set s. is_upper c \<or> is_space c))"

text \<open>
  The invariant of the data model on a loaded car: the model is a non-empty string of
  upper-case letters and whitespace, price and mileage are ints greater than 0, the
  colour is a member of \<open>CarColor\<close>, and the components are a list of non-empty strings
  of upper-case letters and whitespace. An int is what \<open>isinstance\<close> takes for one, the
  widest reading of the annotation \<open>int\<close>; the components are a list, as annotated.
\<close>

definition car_invariant :: "LoadedCar \<Rightarrow> bool" where
  "car_invariant car =
     (upper_ws_text (model car)
      \<and> (\<exists>n. int_value (price car) = Some n \<and> 0 < n)
      \<and> color car \<in> {GREEN, BLACK, WHITE, RED}
      \<and> (\<exists>n. int_value (mileage car) = Some n \<and> 0 < n)
      \<and> (\<exists>comps. components car = PList comps \<and> list_all upper_ws_text comps))"

text \<open>
  What the validator has checked of the fields of a car that is loaded: as the
  invariant, but of the components only that iterating over them gives non-empty
  strings of upper-case letters and whitespace.
\<close>

definition car_checked :: "LoadedCar \<Rightarrow> bool" where
  "car_checked car =
     (upper_ws_text (model car)
      \<and> (\<exists>n. int_value (price car) = Some n \<and> 0 < n)
      \<and> color car \<in> {GREEN, BLACK, WHITE, RED}
      \<and> (\<exists>n. int_value (mileage car) = Some n \<and> 0 < n)
      \<and> (\<exists>comps. py_iter (components car) = Inr comps \<and> (\<forall>comp\<in>set comps. upper_ws_text comp)))"

section \<open>EventsProject: strings and dates\<close>

text \<open>\<open>s.strip()\<close>: the whitespace at both ends is removed.\<close>

definition strip :: "string \<Rightarrow> string" where
  "strip s = rev (dropWhile is_space (rev (dropWhile is_space s)))"

text \<open>
  \<open>s.split(sep)\<close>: the parts between the occurrences of \<open>sep\<close>, found from the left
  and not overlapping; a \<open>ValueError\<close> for the empty separator. \<open>split_from\<close> holds
  the characters of the separator still to skip and the part read so far, reversed.
\<close>

fun split_from :: "string \<Rightarrow> nat \<Rightarrow> string \<Rightarrow> string \<Rightarrow> string list" where
  "split_from sep skip cur [] = [rev cur]"
| "split_from sep skip cur (c # cs) =
     (if 0 < skip then split_from sep (skip - 1) cur cs
      else if take (length sep) (c # cs) = sep then rev cur # split_from sep (length sep - 1) [] cs
      else split_from sep 0 (c # cur) cs)"

definition split :: "string \<Rightarrow> string \<Rightarrow> error + string list" where
  "split s sep = (if sep = [] then Inl ValueError else Inr (split_from sep 0 [] s))"

text \<open>
  A naive \<open>datetime\<close>. Python orders two of them by their fields, from the year down
  to the microsecond, which is the order of \<open>dt_key\<close>.
\<close>

record datetime =
  year :: nat
  month :: nat
  day :: nat
  hour :: nat
  minute :: nat
  second :: nat
  microsecond :: nat

definition dt_key :: "datetime \<Rightarrow> nat \<times> nat \<times> nat \<times> nat \<times> nat \<times> nat \<times> nat" where
  "dt_key d = (year d, month d, day d, hour d, minute d, second d, microsecond d)"

text \<open>
  A date format: the format strings made of the directives \<open>%d\<close>, \<open>%m\<close> and \<open>%Y\<close>
  and of literal characters (\<open>%%\<close> is the literal \<open>%\<close>). \<open>'%d-%m-%Y'\<close>, the format of \<open>main\<close>, is
  \<open>[Directive Dir_d, Lit CHR ''-'', Directive Dir_m, Lit CHR ''-'', Directive Dir_Y]\<close>.
\<close>

datatype directive = Dir_d | Dir_m | Dir_Y

datatype fmt_item = Directive directive | Lit char

type_synonym date_format = "fmt_item list"

text \<open>
  \<open>datetime.strptime\<close> turns the format into a regular expression, compiled with
  \<open>IGNORECASE\<close>: a run of whitespace becomes \<open>\s+\<close>, a directive its group, any
  other character itself.
\<close>

datatype re_item = RDir directive | RLit char | RSpace

fun compile_fmt :: "date_format \<Rightarrow> re_item list" where
  "compile_fmt [] = []"
| "compile_fmt (Directive d # fs) = RDir d # compile_fmt fs"
| "compile_fmt (Lit c # fs) =
     (if is_space c then
        (case compile_fmt fs of RSpace # rs \<Rightarrow> RSpace # rs | rs \<Rightarrow> RSpace # rs)
      else RLit c # compile_fmt fs)"

text \<open>Lower case, for the comparison of a literal under \<open>IGNORECASE\<close>.\<close>

definition to_lower :: "char \<Rightarrow> char" where
  "to_lower c =
     (let n = (of_char c :: nat)
      in if (65 \<le> n \<and> n \<le> 90) \<or> (192 \<le> n \<and> n \<le> 222 \<and> n \<noteq> 215) then char_of (n + 32) else c)"

definition is_digit :: "char \<Rightarrow> bool" where
  "is_digit c = (let n = (of_char c :: nat) in 48 \<le> n \<and> n \<le> 57)"

definition digit_value :: "char \<Rightarrow> nat" where
  "digit_value c = of_char c - 48"

text \<open>The class \<open>[lo-hi]\<close> of two digit characters.\<close>

definition in_range :: "char \<Rightarrow> nat \<Rightarrow> nat \<Rightarrow> bool" where
  "in_range c lo hi = (is_digit c \<and> lo \<le> digit_value c \<and> digit_value c \<le> hi)"

text \<open>
  The matches of the group of a directive at the start of a string, in the order in
  which the regular expression tries its alternatives, each with the number read and
  the rest of the string:
  \<open>%d\<close> is \<open>3[0-1]|[1-2]\d|0[1-9]|[1-9]| [1-9]\<close>,
  \<open>%m\<close> is \<open>1[0-2]|0[1-9]|[1-9]\<close> and \<open>%Y\<close> is \<open>\d\d\d\d\<close>.
\<close>

fun alternatives :: "directive \<Rightarrow> string \<Rightarrow> (nat \<times> string) list" where
  "alternatives Dir_d s =
     (case s of
        a # b # r \<Rightarrow>
          (if a = CHR ''3'' \<and> in_range b 0 1 then [(30 + digit_value b, r)] else [])
          @ (if in_range a 1 2 \<and> is_digit b then [(10 * digit_value a + digit_value b, r)] else [])
          @ (if a = CHR ''0'' \<and> in_range b 1 9 then [(digit_value b, r)] else [])
      | _ \<Rightarrow> [])
     @ (case s of a # r \<Rightarrow> if in_range a 1 9 then [(digit_value a, r)] else [] | [] \<Rightarrow> [])
     @ (case s of
          a # b # r \<Rightarrow> if a = CHR '' '' \<and> in_range b 1 9 then [(digit_value b, r)] else []
        | _ \<Rightarrow> [])"
| "alternatives Dir_m s =
     (case s of
        a # b # r \<Rightarrow>
          (if a = CHR ''1'' \<and> in_range b 0 2 then [(10 + digit_value b, r)] else [])
          @ (if a = CHR ''0'' \<and> in_range b 1 9 then [(digit_value b, r)] else [])
      | _ \<Rightarrow> [])
     @ (case s of a # r \<Rightarrow> if in_range a 1 9 then [(digit_value a, r)] else [] | [] \<Rightarrow> [])"
| "alternatives Dir_Y s =
     (case s of
        a # b # c # d # r \<Rightarrow>
          if is_digit a \<and> is_digit b \<and> is_digit c \<and> is_digit d
          then [(1000 * digit_value a + 100 * digit_value b + 10 * digit_value c + digit_value d, r)]
          else []
      | _ \<Rightarrow> [])"

text \<open>
  The rests of a string after \<open>\s+\<close>: the longest run of whitespace first, then the
  shorter ones down to one character.
\<close>

fun space_rests :: "string \<Rightarrow> string list" where
  "space_rests [] = []"
| "space_rests (x # r) = (if is_space x then space_rests r @ [r] else [])"

text \<open>
  All matches of the regular expression at the start of a string, in the order of the
  backtracking search: the values of the groups and the rest of the string.
\<close>

fun match_items :: "re_item list \<Rightarrow> string \<Rightarrow> ((directive \<times> nat) list \<times> string) list" where
  "match_items [] s = [([], s)]"
| "match_items (RDir d # rs) s =
     concat (map (\<lambda>(v, r). map (\<lambda>(found, rest). ((d, v) # found, rest)) (match_items rs r))
       (alternatives d s))"
| "match_items (RLit c # rs) s =
     (case s of [] \<Rightarrow> [] | x # r \<Rightarrow> if to_lower x = to_lower c then match_items rs r else [])"
| "match_items (RSpace # rs) s = concat (map (match_items rs) (space_rests s))"

definition is_leap :: "nat \<Rightarrow> bool" where
  "is_leap y = (y mod 4 = 0 \<and> (y mod 100 \<noteq> 0 \<or> y mod 400 = 0))"

definition days_in_month :: "nat \<Rightarrow> nat \<Rightarrow> nat" where
  "days_in_month y m =
     (if m = 2 then (if is_leap y then 29 else 28)
      else if m = 4 \<or> m = 6 \<or> m = 9 \<or> m = 11 then 30 else 31)"

text \<open>
  \<open>datetime.strptime(data_string, format)\<close>. A directive used twice is a group defined
  twice, an \<open>re.error\<close>. The first match counts; it is a \<open>ValueError\<close> when there is
  none and when it leaves a rest. A field without directive has its default, the year
  1900, the month 1, the day 1, and the date must exist (the year 0 does not).
\<close>

definition strptime :: "string \<Rightarrow> date_format \<Rightarrow> error + datetime" where
  "strptime data_string format =
     (if \<not> distinct [d. Directive d \<leftarrow> format] then Inl ReError
      else
        case match_items (compile_fmt format) data_string of
          [] \<Rightarrow> Inl ValueError
        | (found, rest) # _ \<Rightarrow>
            if rest \<noteq> [] then Inl ValueError
            else
              let y = (case map_of found Dir_Y of None \<Rightarrow> 1900 | Some v \<Rightarrow> v);
                  m = (case map_of found Dir_m of None \<Rightarrow> 1 | Some v \<Rightarrow> v);
                  d = (case map_of found Dir_d of None \<Rightarrow> 1 | Some v \<Rightarrow> v)
              in if y < 1 \<or> days_in_month y m < d then Inl ValueError
                 else Inr \<lparr>year = y, month = m, day = d, hour = 0, minute = 0, second = 0,
                          microsecond = 0\<rparr>)"

text \<open>
  \<open>d.strftime(format)\<close>, which the C library computes: day and month in two digits,
  the year without leading zeros, a literal as it is; the result ends where the format
  has a NUL character.
\<close>

definition digit_char :: "nat \<Rightarrow> char" where
  "digit_char n = ''0123456789'' ! (n mod 10)"

fun strftime_item :: "datetime \<Rightarrow> fmt_item \<Rightarrow> string" where
  "strftime_item d (Directive Dir_d) = [digit_char (day d div 10), digit_char (day d)]"
| "strftime_item d (Directive Dir_m) = [digit_char (month d div 10), digit_char (month d)]"
| "strftime_item d (Directive Dir_Y) =
     dropWhile (\<lambda>c. c = CHR ''0'')
       [digit_char (year d div 1000), digit_char (year d div 100), digit_char (year d div 10)]
     @ [digit_char (year d)]"
| "strftime_item d (Lit c) = [c]"

definition strftime :: "datetime \<Rightarrow> date_format \<Rightarrow> string" where
  "strftime d format =
     concat (map (strftime_item d) (takeWhile (\<lambda>item. item \<noteq> Lit (CHR 0x00)) format))"

section \<open>EventValidator\<close>

record EventValidator =
  event_name_regex :: regex
  date_format :: date_format
  separator :: string
  allow_past_dates :: bool

text \<open>What a message of the event validator says.\<close>

datatype event_message =
    InvalidFormat
  | EmptyEventName
  | NameNoMatch string
  | EmptyDate
  | DateInPast string
  | DateNotInFormat string

type_synonym event_errors = "(string \<times> event_message list) list"

text \<open>
  \<open>EventValidator.validate\<close>, with the reading of the clock, \<open>datetime.now()\<close>, as
  the argument \<open>now\<close>. The \<open>try\<close> catches the \<open>ValueError\<close> of \<open>strptime\<close>
  only; the \<open>split\<close> is outside it.
\<close>

definition validate_event_name :: "EventValidator \<Rightarrow> string \<Rightarrow> event_errors \<Rightarrow> event_errors" where
  "validate_event_name v event_name errors =
     (if event_name = [] then dict_set errors ''event_name'' [EmptyEventName]
      else if \<not> event_name_regex v event_name
        then dict_set errors ''event_name'' [NameNoMatch event_name]
      else errors)"

definition validate_date ::
  "EventValidator \<Rightarrow> datetime \<Rightarrow> string \<Rightarrow> event_errors \<Rightarrow> error + event_errors" where
  "validate_date v now date_str errors =
     (if date_str = [] then Inr (dict_set errors ''date'' [EmptyDate])
      else
        case strptime date_str (date_format v) of
          Inr event_date \<Rightarrow>
            if \<not> allow_past_dates v \<and> dt_key event_date < dt_key now
            then Inr (dict_set errors ''date'' [DateInPast date_str])
            else Inr errors
        | Inl ValueError \<Rightarrow> Inr (dict_set errors ''date'' [DateNotInFormat date_str])
        | Inl e \<Rightarrow> Inl e)"

definition EventValidator_validate ::
  "EventValidator \<Rightarrow> datetime \<Rightarrow> string \<Rightarrow> error + (bool \<times> event_errors)" where
  "EventValidator_validate v now line_str =
     and_then (split line_str (separator v)) (\<lambda>parts.
       and_then
         (case parts of
            [p0, p1] \<Rightarrow>
              (let event_name = strip p0; date_str = strip p1
               in validate_date v now date_str (validate_event_name v event_name []))
          | _ \<Rightarrow> Inr (dict_set [] ''format'' [InvalidFormat]))
         (\<lambda>errors. Inr (length errors = 0, errors)))"

section \<open>Event, EventsFileReader and EventService\<close>

record Event =
  event_name :: string
  date :: datetime

text \<open>
  \<open>Event.from_str\<close>: unpacking the parts into two names is a \<open>ValueError\<close> unless
  there are two of them, and the parts are used as they are.
\<close>

definition from_str :: "string \<Rightarrow> date_format \<Rightarrow> string \<Rightarrow> error + Event" where
  "from_str data fmt sep =
     and_then (split data sep) (\<lambda>parts.
       case parts of
         [name, date_str] \<Rightarrow>
           and_then (strptime date_str fmt) (\<lambda>d. Inr \<lparr>event_name = name, date = d\<rparr>)
       | _ \<Rightarrow> Inl ValueError)"

text \<open>
  A text file is the list of its lines, without the line ends.
  \<open>TextFileReader.read\<close> strips every line; \<open>TextFileWriter.write\<close> writes every
  string of \<open>data\<close> as one line.
\<close>

definition TextFileReader_read :: "string list \<Rightarrow> string list" where
  "TextFileReader_read file = map strip file"

definition TextFileWriter_write :: "string list \<Rightarrow> string list" where
  "TextFileWriter_write data = data"

record EventsFileReader =
  event_validator :: EventValidator
  stop_loading_if_error :: bool

text \<open>
  The loop of \<open>get_events\<close>, from the events appended so far. \<open>Event.from_str\<close> is
  called without a separator, so with its default \<open>';'\<close>.
\<close>

fun get_events_loop ::
  "EventsFileReader \<Rightarrow> datetime \<Rightarrow> string list \<Rightarrow> Event list \<Rightarrow> error + Event list" where
  "get_events_loop r now [] events = Inr events"
| "get_events_loop r now (event # rest) events =
     (case EventValidator_validate (event_validator r) now event of
        Inl e \<Rightarrow> Inl e
      | Inr (is_valid, errors) \<Rightarrow>
          if is_valid then
            (case from_str event (date_format (event_validator r)) '';'' of
               Inl e \<Rightarrow> Inl e
             | Inr ev \<Rightarrow> get_events_loop r now rest (events @ [ev]))
          else if EventsFileReader.stop_loading_if_error r then Inl ValueError
          else get_events_loop r now rest events)"

definition get_events :: "EventsFileReader \<Rightarrow> datetime \<Rightarrow> string list \<Rightarrow> error + Event list" where
  "get_events r now file =
     (case get_events_loop r now (TextFileReader_read file) [] of
        Inl e \<Rightarrow> Inl e
      | Inr events \<Rightarrow> Inr (py_sorted (\<lambda>event. dt_key (date event)) False events))"

text \<open>\<open>save_sorted_events\<close>, as the lines of the file it writes.\<close>

definition save_sorted_events :: "Event list \<Rightarrow> date_format \<Rightarrow> string list" where
  "save_sorted_events events fmt =
     TextFileWriter_write [event_name event @ '';'' @ strftime (date event) fmt. event \<leftarrow> events]"

text \<open>\<open>Counter(xs)\<close>: the count of every element, in the order of first occurrence.\<close>

definition Counter :: "'a list \<Rightarrow> ('a \<times> nat) list" where
  "Counter xs =
     fold (\<lambda>x d. dict_set d x (case map_of d x of None \<Rightarrow> 1 | Some n \<Rightarrow> n + 1)) xs []"

text \<open>\<open>max(xs, default=0)\<close>.\<close>

definition max_default :: "nat list \<Rightarrow> nat" where
  "max_default xs = (case xs of [] \<Rightarrow> 0 | x # r \<Rightarrow> fold max r x)"

definition get_most_common_date :: "Event list \<Rightarrow> date_format \<Rightarrow> error + (string list \<times> nat)" where
  "get_most_common_date events fmt =
     (if events = [] then Inl ValueError
      else
        let date_counts = Counter [strftime (date event) fmt. event \<leftarrow> events];
            max_count = max_default (map snd date_counts);
            most_common_dates = [d. (d, count) \<leftarrow> date_counts, count = max_count]
        in Inr (most_common_dates, max_count))"

section \<open>Notions for the proofs\<close>

text \<open>
  The cars of a model in a collection whose price no other car of that model exceeds,
  in the order of the collection.
\<close>

definition tops :: "TypedCar list \<Rightarrow> string \<Rightarrow> TypedCar list" where
  "tops xs m = [c \<leftarrow> xs. model c = m \<and> (\<forall>c'\<in>set xs. model c' = m \<longrightarrow> price c' \<le> price c)]"

text \<open>
  What the loop of \<open>get_model_cars_most_expensive\<close> keeps true of its dict after the
  cars \<open>xs\<close>: the keys are the models seen, each once, with the list \<open>tops xs m\<close>.
\<close>

definition tracks :: "(string \<times> TypedCar list) list \<Rightarrow> TypedCar list \<Rightarrow> bool" where
  "tracks d xs = (distinct (map fst d)
     \<and> (\<forall>m. map_of d m = (if m \<in> model ` set xs then Some (tops xs m) else None)))"


text \<open>The distinct elements of a list, in the order of their first occurrence.\<close>

definition first_occurrences :: "'a list \<Rightarrow> 'a list" where
  "first_occurrences xs = rev (remdups (rev xs))"

section \<open>Example data\<close>

definition car_a :: TypedCar where
  "car_a = \<lparr>model = ''A'', price = 100, color = RED, mileage = 6000, components = []\<rparr>"

definition car_b :: TypedCar where
  "car_b = \<lparr>model = ''B'', price = 300, color = GREEN, mileage = 5000, components = [''ABS'']\<rparr>"



text \<open>A record whose components are a dict, and the car that is made of it.\<close>

definition record_dict :: pyval where
  "record_dict =
     PDict [(''model'', PStr ''AUDI''), (''price'', PInt 100), (''color'', PStr ''RED''),
            (''mileage'', PInt 5000), (''components'', PDict [(''ABS'', PInt 1)])]"

definition car_dict :: LoadedCar where
  "car_dict =
     \<lparr>model = PStr ''AUDI'', price = PInt 100, color = RED, mileage = PInt 5000,
      components = PDict [(''ABS'', PInt 1)]\<rparr>"

definition stopping_reader :: CarsFileReader where
  "stopping_reader = \<lparr>car_validator = default_CarValidator, stop_loading_if_error = True\<rparr>"

definition skipping_reader :: CarsFileReader where
  "skipping_reader = \<lparr>car_validator = default_CarValidator, stop_loading_if_error = False\<rparr>"

definition car_x1 :: TypedCar where
  "car_x1 = \<lparr>model = ''X'', price = 100, color = RED, mileage = 10, components = []\<rparr>"

definition car_x2 :: TypedCar where
  "car_x2 = \<lparr>model = ''X'', price = 100, color = BLACK, mileage = 20, components = []\<rparr>"

definition car_x3 :: TypedCar where
  "car_x3 = \<lparr>model = ''X'', price = 50, color = WHITE, mileage = 30, components = []\<rparr>"

text \<open>The format \<open>'%d-%m-%Y'\<close> of \<open>main\<close>.\<close>

definition dmy :: date_format where
  "dmy = [Directive Dir_d, Lit CHR ''-'', Directive Dir_m, Lit CHR ''-'', Directive Dir_Y]"

text \<open>
  The pattern of the event name in \<open>main\<close>, one or more characters out of letters,
  digits, the space, \<open>,.?!-\<close> and the Polish letters, between \<open>^\<close> and \<open>$\<close>. Of
  the Polish letters only the O with acute accent, upper and lower case, is a code point
  below 256. \<open>$\<close> also matches before a newline that ends the string.
\<close>

definition name_char :: "char \<Rightarrow> bool" where
  "name_char c =
     (let n = (of_char c :: nat)
      in (65 \<le> n \<and> n \<le> 90) \<or> (97 \<le> n \<and> n \<le> 122) \<or> (48 \<le> n \<and> n \<le> 57)
         \<or> c \<in> set '' ,.?!-'' \<or> n = 211 \<or> n = 243)"

definition main_event_name_regex :: regex where
  "main_event_name_regex s =
     (let t = (if s \<noteq> [] \<and> last s = CHR 0x0A then butlast s else s)
      in t \<noteq> [] \<and> list_all name_char t)"

definition main_validator :: EventValidator where
  "main_validator =
     \<lparr>event_name_regex = main_event_name_regex, date_format = dmy, separator = '';'',
      allow_past_dates = False\<rparr>"

definition main_reader :: EventsFileReader where
  "main_reader = \<lparr>event_validator = main_validator, stop_loading_if_error = True\<rparr>"

text \<open>A reading of the clock, and midnight of a day.\<close>

definition now0 :: datetime where
  "now0 = \<lparr>year = 2026, month = 11, day = 3, hour = 12, minute = 0, second = 0, microsecond = 0\<rparr>"

definition midnight :: "nat \<Rightarrow> nat \<Rightarrow> nat \<Rightarrow> datetime" where
  "midnight y m d =
     \<lparr>year = y, month = m, day = d, hour = 0, minute = 0, second = 0, microsecond = 0\<rparr>"

definition event_A :: Event where
  "event_A = \<lparr>event_name = ''A'', date = midnight 2030 1 1\<rparr>"

definition event_B :: Event where
  "event_B = \<lparr>event_name = ''B'', date = midnight 2030 1 2\<rparr>"

text \<open>A reader whose validator has the separator \<open>'; '\<close>.\<close>

definition spaced_reader :: EventsFileReader where
  "spaced_reader =
     \<lparr>event_validator = main_validator\<lparr>separator := ''; ''\<rparr>, stop_loading_if_error = True\<rparr>"

section \<open>Properties of the service\<close>

lemma fold_max_Max: "fold max xs (x::'a::linorder) = Max (insert x (set xs))"
  by (simp add: Max.set_eq_fold [symmetric])


lemma py_max_nonempty: "xs \<noteq> [] \<Longrightarrow> py_max xs = Inr (Max (set xs))"
  by (cases xs) (simp_all add: fold_max_Max)


text \<open>
  C8: \<open>get_cars_mileage_than\<close> raises exactly when its argument is not an int that
  is at least 0, so for \<open>-1\<close>; for an int \<open>n\<close> that is at least 0 it returns the cars
  with a mileage greater than \<open>n\<close>, in the order of the collection, and none of the
  cars it returns has a mileage of \<open>n\<close> or less.
\<close>

theorem get_cars_mileage_than_spec:
  "((\<exists>e. get_cars_mileage_than cars m = Inl e) \<longleftrightarrow> \<not> (\<exists>n. int_value m = Some n \<and> 0 \<le> n))
   \<and> get_cars_mileage_than cars (PInt (- 1)) = Inl ValueError
   \<and> (\<forall>n. int_value m = Some n \<and> 0 \<le> n \<longrightarrow>
          get_cars_mileage_than cars m = Inr [car \<leftarrow> cars. n < mileage car]
          \<and> (\<forall>cs car. get_cars_mileage_than cars m = Inr cs \<and> car \<in> set cs
                \<longrightarrow> \<not> mileage car \<le> n))"
  by (auto simp: get_cars_mileage_than_def split: option.splits)

theorem get_cars_mileage_than_witness:
  "get_cars_mileage_than [car_a, car_b, car_a] (PInt 5000) = Inr [car_a, car_a]
   \<and> (\<exists>e. get_cars_mileage_than [car_a, car_b, car_a] (PStr ''5000'') = Inl e)"
  using get_cars_mileage_than_spec [of "[car_a, car_b, car_a]" "PInt 5000"]
    get_cars_mileage_than_spec [of "[car_a, car_b, car_a]" "PStr ''5000''"]
  by (simp add: car_a_def car_b_def)

subsection \<open>True division and the statistics\<close>

































text \<open>
  C10: on the empty collection \<open>get_cars_most_expensive\<close> fails, with the
  \<open>ValueError\<close> of \<open>max\<close>, where the statistics return zeros; on any other it
  returns the cars whose price is the maximum price of the collection, in the order of
  the collection.
\<close>

theorem get_cars_most_expensive_spec:
  "get_cars_most_expensive [] = Inl ValueError
   \<and> get_statistic_price_mileage [] =
      Inr [(''price'', [(''avg'', 0), (''min'', 0), (''max'', 0)]),
           (''mileage'', [(''avg'', 0), (''min'', 0), (''max'', 0)])]
   \<and> (cars \<noteq> [] \<longrightarrow>
        get_cars_most_expensive cars = Inr [car \<leftarrow> cars. price car = Max (price ` set cars)])"
  by (simp add: get_cars_most_expensive_def get_statistic_price_mileage_def py_max_nonempty)

theorem get_cars_most_expensive_witness:
  "get_cars_most_expensive [car_a, car_b, car_a, car_b] = Inr [car_b, car_b]"
  using get_cars_most_expensive_spec [of "[car_a, car_b, car_a, car_b]"]
  by (simp add: car_a_def car_b_def)

lemma map_of_dict_set: "map_of (dict_set d k v) = (map_of d)(k \<mapsto> v)"
  by (induction d k v rule: dict_set.induct) auto

lemma keys_dict_set: "fst ` set (dict_set d k v) = insert k (fst ` set d)"
  by (induction d k v rule: dict_set.induct) auto

lemma distinct_dict_set: "distinct (map fst d) \<Longrightarrow> distinct (map fst (dict_set d k v))"
proof (induction d k v rule: dict_set.induct)
  case (1 k v)
  then show ?case by simp
next
  case (2 k' v' d k v)
  then show ?case using keys_dict_set [of d k v] by (auto simp: image_iff)
qed

lemma tops_nonempty:
  assumes "m \<in> model ` set xs"
  shows "tops xs m \<noteq> []"
proof -
  let ?S = "{c \<in> set xs. model c = m}"
  have fin: "finite (price ` ?S)" and ne: "price ` ?S \<noteq> {}" using assms by auto
  from Max_in [OF fin ne] obtain c where c: "c \<in> ?S" "price c = Max (price ` ?S)" by auto
  have "\<forall>c'\<in>set xs. model c' = m \<longrightarrow> price c' \<le> price c"
    using c(2) Max_ge [OF fin] by auto
  with c(1) have "c \<in> set (tops xs m)" by (simp add: tops_def)
  then show ?thesis by auto
qed

lemma tops_other:
  "model car \<noteq> m \<Longrightarrow> tops (xs @ [car]) m = tops xs m"
  by (auto simp: tops_def intro: filter_cong)

lemma tops_new:
  assumes "model car \<notin> model ` set xs"
  shows "tops (xs @ [car]) (model car) = [car]"
proof -
  from assms have no: "\<forall>c\<in>set xs. model c \<noteq> model car" by (auto simp: image_iff)
  then have "[c \<leftarrow> xs. model c = model car \<and> (\<forall>c'\<in>set (xs @ [car]). model c' = model car \<longrightarrow> price c' \<le> price c)] = []"
    by (simp add: filter_empty_conv)
  moreover have "\<forall>c'\<in>set (xs @ [car]). model c' = model car \<longrightarrow> price c' \<le> price car"
    using no by auto
  ultimately show ?thesis by (simp add: tops_def)
qed

lemma tops_same:
  assumes "tops xs (model car) = first # others"
  shows "tops (xs @ [car]) (model car) =
     (if price first < price car then [car]
      else if price car = price first then (first # others) @ [car]
      else first # others)"
proof -
  let ?k = "model car"
  have "first \<in> set (tops xs ?k)" using assms by simp
  then have first: "first \<in> set xs" "model first = ?k"
    "\<forall>c'\<in>set xs. model c' = ?k \<longrightarrow> price c' \<le> price first"
    by (simp_all add: tops_def)
  show ?thesis
  proof (cases "price first < price car")
    case True
    have "[c \<leftarrow> xs. model c = ?k \<and> (\<forall>c'\<in>set (xs @ [car]). model c' = ?k \<longrightarrow> price c' \<le> price c)] = []"
      using True first by (fastforce simp: filter_empty_conv)
    moreover have "\<forall>c'\<in>set (xs @ [car]). model c' = ?k \<longrightarrow> price c' \<le> price car"
      using True first by fastforce
    ultimately show ?thesis using True by (simp add: tops_def)
  next
    case False
    have keep: "[c \<leftarrow> xs. model c = ?k \<and> (\<forall>c'\<in>set (xs @ [car]). model c' = ?k \<longrightarrow> price c' \<le> price c)]
        = tops xs ?k"
      unfolding tops_def
    proof (rule filter_cong [OF refl])
      fix c assume "c \<in> set xs"
      show "(model c = ?k \<and> (\<forall>c'\<in>set (xs @ [car]). model c' = ?k \<longrightarrow> price c' \<le> price c))
          = (model c = ?k \<and> (\<forall>c'\<in>set xs. model c' = ?k \<longrightarrow> price c' \<le> price c))"
        using False first by fastforce
    qed
    have last: "(\<forall>c'\<in>set (xs @ [car]). model c' = ?k \<longrightarrow> price c' \<le> price car)
        \<longleftrightarrow> price car = price first"
      using False first by fastforce
    show ?thesis using False keep last assms by (auto simp: tops_def)
  qed
qed


lemma tracks_step:
  assumes "tracks d xs"
  shows "tracks (most_expensive_step d car) (xs @ [car])"
proof -
  let ?k = "model car"
  from assms have dist: "distinct (map fst d)"
    and look: "\<And>m. map_of d m = (if m \<in> model ` set xs then Some (tops xs m) else None)"
    by (simp_all add: tracks_def)
  have other: "map_of d m = (if m \<in> model ` set (xs @ [car]) then Some (tops (xs @ [car]) m) else None)"
    if "m \<noteq> ?k" for m
    using that look [of m] tops_other [of car m xs] by auto
  show ?thesis
  proof (cases "?k \<in> model ` set xs")
    case False
    then have "map_of d ?k = None" using look by simp
    then have step: "most_expensive_step d car = dict_set d ?k [car]"
      by (simp add: most_expensive_step_def)
    have "map_of (dict_set d ?k [car]) m =
        (if m \<in> model ` set (xs @ [car]) then Some (tops (xs @ [car]) m) else None)" for m
      using other [of m] tops_new [OF False] by (cases "m = ?k") (simp_all add: map_of_dict_set)
    then show ?thesis
      unfolding tracks_def step using distinct_dict_set [OF dist] by blast
  next
    case True
    then have some: "map_of d ?k = Some (tops xs ?k)" using look by simp
    from tops_nonempty [OF True] obtain first others where t: "tops xs ?k = first # others"
      by (cases "tops xs ?k") auto
    have new: "map_of (most_expensive_step d car) = (map_of d)(?k \<mapsto> tops (xs @ [car]) ?k)"
      using some t tops_same [OF t]
      by (auto simp: most_expensive_step_def map_of_dict_set Let_def fun_upd_idem_iff)
    have dist': "distinct (map fst (most_expensive_step d car))"
      using some t dist distinct_dict_set [OF dist]
      by (auto simp: most_expensive_step_def Let_def)
    have "map_of (most_expensive_step d car) m =
        (if m \<in> model ` set (xs @ [car]) then Some (tops (xs @ [car]) m) else None)" for m
      using other [of m] new by (cases "m = ?k") simp_all
    then show ?thesis
      unfolding tracks_def using dist' by blast
  qed
qed

lemma tracks_fold:
  "tracks d xs \<Longrightarrow> tracks (fold (\<lambda>car d. most_expensive_step d car) ys d) (xs @ ys)"
proof (induction ys arbitrary: d xs)
  case Nil
  then show ?case by simp
next
  case (Cons y ys)
  from Cons.IH [OF tracks_step [OF Cons.prems, of y]] show ?case by simp
qed

lemma tracks_all: "tracks (fold (\<lambda>car d. most_expensive_step d car) cars []) cars"
  using tracks_fold [of "[]" "[]" cars] by (simp add: tracks_def)

lemma tops_Max:
  "tops xs m = [car \<leftarrow> xs. model car = m \<and> price car = Max (price ` {c \<in> set xs. model c = m})]"
  unfolding tops_def
proof (rule filter_cong [OF refl])
  fix c assume c: "c \<in> set xs"
  let ?S = "{c \<in> set xs. model c = m}"
  have fin: "finite (price ` ?S)" by simp
  show "(model c = m \<and> (\<forall>c'\<in>set xs. model c' = m \<longrightarrow> price c' \<le> price c))
      = (model c = m \<and> price c = Max (price ` ?S))"
  proof (cases "model c = m")
    case True
    with c have mem: "price c \<in> price ` ?S" by auto
    have "(\<forall>c'\<in>set xs. model c' = m \<longrightarrow> price c' \<le> price c) \<longleftrightarrow> price c = Max (price ` ?S)"
    proof
      assume "\<forall>c'\<in>set xs. model c' = m \<longrightarrow> price c' \<le> price c"
      then have "\<And>y. y \<in> price ` ?S \<Longrightarrow> y \<le> price c" by auto
      from Max_eqI [OF fin this mem] show "price c = Max (price ` ?S)" by simp
    next
      assume "price c = Max (price ` ?S)"
      then show "\<forall>c'\<in>set xs. model c' = m \<longrightarrow> price c' \<le> price c"
        using Max_ge [OF fin] by auto
    qed
    with True show ?thesis by simp
  next
    case False
    then show ?thesis by simp
  qed
qed

lemma py_sorted_set: "set (py_sorted f r xs) = set xs"
  by (simp add: py_sorted_def)

lemma py_sorted_distinct: "distinct (map f (py_sorted f r xs)) = distinct (map f xs)"
  by (simp add: py_sorted_def distinct_map)

lemma py_sorted_order:
  "(if r then sorted (rev (map f (py_sorted f r xs))) else sorted (map f (py_sorted f r xs)))"
  by (simp add: py_sorted_def rev_map)

lemma map_of_py_sorted:
  "distinct (map fst d) \<Longrightarrow> map_of (py_sorted fst r d) = map_of d"
  by (rule map_of_inject_set [THEN iffD2]) (simp_all add: py_sorted_set py_sorted_distinct)

text \<open>
  C5: the keys of the mapping \<open>get_model_cars_most_expensive\<close> returns are the models
  of the collection, each once; a model maps to its cars whose price is the maximum
  price of the model, all of them, in the order of the collection; the entries are in
  descending order of the model when the flag is set and in ascending order otherwise.
  For the model X with the prices 100, 100 and 50 both cars of price 100 are kept.
\<close>

theorem get_model_cars_most_expensive_spec:
  "fst ` set (get_model_cars_most_expensive cars descending) = model ` set cars
   \<and> distinct (map fst (get_model_cars_most_expensive cars descending))
   \<and> (\<forall>m\<in>model ` set cars.
        map_of (get_model_cars_most_expensive cars descending) m =
          Some [car \<leftarrow> cars. model car = m \<and> price car = Max (price ` {c \<in> set cars. model c = m})])
   \<and> (if descending then sorted (rev (map fst (get_model_cars_most_expensive cars descending)))
       else sorted (map fst (get_model_cars_most_expensive cars descending)))
   \<and> get_model_cars_most_expensive [car_x1, car_x2, car_x3] True = [(''X'', [car_x1, car_x2])]"
proof -
  let ?d = "fold (\<lambda>car d. most_expensive_step d car) cars []"
  let ?r = "get_model_cars_most_expensive cars descending"
  have r: "?r = py_sorted fst descending ?d" by (simp add: get_model_cars_most_expensive_def)
  from tracks_all [of cars] have dist: "distinct (map fst ?d)"
    and look: "\<And>m. map_of ?d m = (if m \<in> model ` set cars then Some (tops cars m) else None)"
    by (simp_all add: tracks_def)
  have keys: "fst ` set ?d = model ` set cars"
  proof -
    have "dom (map_of ?d) = model ` set cars" using look by (auto simp: dom_def)
    then show ?thesis by (simp add: dom_map_of_conv_image_fst)
  qed
  have 1: "fst ` set ?r = model ` set cars" using keys by (simp add: r py_sorted_set)
  have 2: "distinct (map fst ?r)" using dist by (simp add: r py_sorted_distinct)
  have 3: "\<forall>m\<in>model ` set cars. map_of ?r m =
      Some [car \<leftarrow> cars. model car = m \<and> price car = Max (price ` {c \<in> set cars. model c = m})]"
    using look by (simp add: r map_of_py_sorted [OF dist] tops_Max)
  have 4: "if descending then sorted (rev (map fst ?r)) else sorted (map fst ?r)"
    unfolding r by (rule py_sorted_order)
  have 5: "get_model_cars_most_expensive [car_x1, car_x2, car_x3] True = [(''X'', [car_x1, car_x2])]"
    by (simp add: get_model_cars_most_expensive_def most_expensive_step_def py_sorted_def
        car_x1_def car_x2_def car_x3_def)
  from 1 2 3 4 5 show ?thesis by blast
qed

theorem get_model_cars_most_expensive_witness:
  "map_of (get_model_cars_most_expensive [car_a, car_b, car_a] True) ''A'' = Some [car_a, car_a]
   \<and> sorted (rev (map fst (get_model_cars_most_expensive [car_a, car_b, car_a] True)))"
proof -
  have mem: "''A'' \<in> model ` set [car_a, car_b, car_a]"
    by (simp add: car_a_def)
  have "{c \<in> set [car_a, car_b, car_a]. model c = ''A''} = {car_a}"
    by (auto simp: car_a_def car_b_def)
  then have top: "[car \<leftarrow> [car_a, car_b, car_a]. model car = ''A''
        \<and> price car = Max (price ` {c \<in> set [car_a, car_b, car_a]. model c = ''A''})] = [car_a, car_a]"
    by (simp add: car_a_def car_b_def)
  from get_model_cars_most_expensive_spec [of "[car_a, car_b, car_a]" True] mem
  have "map_of (get_model_cars_most_expensive [car_a, car_b, car_a] True) ''A'' =
      Some [car \<leftarrow> [car_a, car_b, car_a]. model car = ''A''
        \<and> price car = Max (price ` {c \<in> set [car_a, car_b, car_a]. model c = ''A''})]"
    by blast
  with top get_model_cars_most_expensive_spec [of "[car_a, car_b, car_a]" True]
  show ?thesis by simp
qed

section \<open>Properties of the validator and the loader of cars\<close>

lemma dict_set_nonempty: "dict_set d k v \<noteq> []"
  by (cases d) (auto split: if_splits)

lemma report_nonempty: "report data errors field txt keys = Inr e \<Longrightarrow> e \<noteq> []"
  by (auto simp: report_def dict_set_nonempty split: sum.splits)

lemma and_then_Inr: "and_then r f = Inr y \<longleftrightarrow> (\<exists>x. r = Inr x \<and> f x = Inr y)"
  by (cases r) (simp_all add: and_then_def)

lemma validate_model_empty:
  "validate_model v data errors = Inr [] \<Longrightarrow>
     errors = [] \<and> (\<exists>s. map_of data ''model'' = Some (PStr s) \<and> model_regex v s)"
proof -
  assume a: "validate_model v data errors = Inr []"
  show ?thesis
  proof (cases \<open>map_of data ''model''\<close>)
    case None
    with a show ?thesis by (auto simp: validate_model_def dest: report_nonempty)
  next
    case (Some m)
    with a show ?thesis
      by (cases m) (auto simp: validate_model_def and_then_Inr dest: report_nonempty split: if_splits)
  qed
qed

lemma validate_price_empty:
  "validate_price data errors = Inr [] \<Longrightarrow>
     errors = [] \<and> (\<exists>p n. map_of data ''price'' = Some p \<and> int_value p = Some n \<and> 0 < n)"
  unfolding validate_price_def
  by (auto dest: report_nonempty split: option.splits if_splits)

lemma validate_mileage_empty:
  "validate_mileage data errors = Inr [] \<Longrightarrow>
     errors = [] \<and> (\<exists>p n. map_of data ''mileage'' = Some p \<and> int_value p = Some n \<and> 0 < n)"
  unfolding validate_mileage_def
  by (auto dest: report_nonempty split: option.splits if_splits)

lemma in_color_names_True: "in_color_names c = Inr True \<Longrightarrow> \<exists>s col. c = PStr s \<and> color_of_name s = Some col"
  by (cases c) auto

lemma validate_color_empty:
  "validate_color data errors = Inr [] \<Longrightarrow>
     errors = [] \<and> (\<exists>s col. map_of data ''color'' = Some (PStr s) \<and> color_of_name s = Some col)"
  unfolding validate_color_def
  by (auto simp: and_then_Inr dest: report_nonempty in_color_names_True split: option.splits if_splits)

lemma validate_components_empty:
  "validate_components v data errors = Inr [] \<Longrightarrow>
     errors = [] \<and> (\<exists>cs comps. map_of data ''components'' = Some cs \<and> py_iter cs = Inr comps
        \<and> list_all (component_ok (collection_regex v)) comps)"
  unfolding validate_components_def
  by (auto simp: and_then_Inr dest: report_nonempty split: option.splits if_splits)

lemma component_ok_text: "component_ok upper_ws_regex x \<Longrightarrow> upper_ws_text x"
  by (cases x) (auto simp: upper_ws_text_def upper_ws_regex_def list_all_iff)

lemma validate_valid_fields:
  assumes "CarValidator_validate v record = Inr (True, errs)"
  shows "\<exists>data s p n cs col m k comps. record = PDict data
     \<and> map_of data ''model'' = Some (PStr s) \<and> model_regex v s
     \<and> map_of data ''price'' = Some p \<and> int_value p = Some n \<and> 0 < n
     \<and> map_of data ''color'' = Some (PStr cs) \<and> color_of_name cs = Some col
     \<and> map_of data ''mileage'' = Some m \<and> int_value m = Some k \<and> 0 < k
     \<and> map_of data ''components'' = Some comps
     \<and> (\<exists>xs. py_iter comps = Inr xs \<and> list_all (component_ok (collection_regex v)) xs)"
proof -
  from assms obtain data where rec: "record = PDict data"
    by (cases "record") (auto simp: CarValidator_validate_def)
  from assms rec obtain e1 e2 e3 e4 where
    s1: "validate_model v data [] = Inr e1" and
    s2: "validate_price data e1 = Inr e2" and
    s3: "validate_color data e2 = Inr e3" and
    s4: "validate_mileage data e3 = Inr e4" and
    s5: "validate_components v data e4 = Inr []"
    by (auto simp: CarValidator_validate_def and_then_Inr)
  from validate_components_empty [OF s5] have e4: "e4 = []" and c5: "\<exists>cs comps. map_of data ''components'' = Some cs \<and> py_iter cs = Inr comps
        \<and> list_all (component_ok (collection_regex v)) comps" by auto
  from validate_mileage_empty [OF s4 [unfolded e4]] have e3: "e3 = []" and c4: "\<exists>p n. map_of data ''mileage'' = Some p \<and> int_value p = Some n \<and> 0 < n" by auto
  from validate_color_empty [OF s3 [unfolded e3]] have e2: "e2 = []" and c3: "\<exists>s col. map_of data ''color'' = Some (PStr s) \<and> color_of_name s = Some col" by auto
  from validate_price_empty [OF s2 [unfolded e2]] have e1: "e1 = []" and c2: "\<exists>p n. map_of data ''price'' = Some p \<and> int_value p = Some n \<and> 0 < n" by auto
  from validate_model_empty [OF s1 [unfolded e1]] have c1: "\<exists>s. map_of data ''model'' = Some (PStr s) \<and> model_regex v s" by auto
  from rec c1 c2 c3 c4 c5 show ?thesis by blast
qed

lemma valid_car_checked:
  assumes "CarValidator_validate v record = Inr (True, errs)"
    and "model_regex v = upper_ws_regex" and "collection_regex v = upper_ws_regex"
    and "from_dict record = Inr car"
  shows "car_checked car"
proof -
  from validate_valid_fields [OF assms(1)] obtain data s p n cs col m k comps xs where
    f: "record = PDict data" "map_of data ''model'' = Some (PStr s)" "model_regex v s"
     "map_of data ''price'' = Some p" "int_value p = Some n" "0 < n"
     "map_of data ''color'' = Some (PStr cs)" "color_of_name cs = Some col"
     "map_of data ''mileage'' = Some m" "int_value m = Some k" "0 < k"
     "map_of data ''components'' = Some comps"
     "py_iter comps = Inr xs" "list_all (component_ok (collection_regex v)) xs"
    by blast
  from f assms(4) have car: "car = \<lparr>model = PStr s, price = p, color = col, mileage = m, components = comps\<rparr>"
    by (simp add: from_dict_def and_then_def getitem_def)
  have "upper_ws_text (PStr s)" using f(3) assms(2) component_ok_text [of "PStr s"] by simp
  moreover have "\<forall>comp\<in>set xs. upper_ws_text comp"
    using f(14) assms(3) component_ok_text by (auto simp: list_all_iff)
  moreover have "col \<in> {GREEN, BLACK, WHITE, RED}" by (cases col) auto
  ultimately show ?thesis using f car by (simp add: car_checked_def)
qed

lemma get_cars_loop_checked:
  assumes "model_regex (car_validator r) = upper_ws_regex"
    and "collection_regex (car_validator r) = upper_ws_regex"
  shows "get_cars_loop r cars_data acc = Inr cars \<Longrightarrow> \<forall>c\<in>set acc. car_checked c
     \<Longrightarrow> \<forall>c\<in>set cars. car_checked c"
proof (induction cars_data arbitrary: acc)
  case Nil
  then show ?case by simp
next
  case (Cons car rest)
  from Cons.prems(1) obtain is_valid errs where
    v: "CarValidator_validate (car_validator r) car = Inr (is_valid, errs)"
    by (auto split: sum.splits)
  show ?case
  proof (cases is_valid)
    case True
    with Cons.prems(1) v obtain c where c: "from_dict car = Inr c"
      and rest: "get_cars_loop r rest (acc @ [c]) = Inr cars"
      by (auto split: sum.splits)
    from v True have "CarValidator_validate (car_validator r) car = Inr (True, errs)" by simp
    from valid_car_checked [OF this assms c] have "car_checked c" .
    with Cons.prems(2) have "\<forall>c\<in>set (acc @ [c]). car_checked c" by simp
    from Cons.IH [OF rest this] show ?thesis .
  next
    case False
    with Cons.prems(1) v have "get_cars_loop r rest acc = Inr cars"
      by (auto split: if_splits)
    from Cons.IH [OF this Cons.prems(2)] show ?thesis .
  qed
qed

text \<open>
  With the patterns of the validator as the dataclass sets them, every car of the
  collection that \<open>get_cars\<close> returns has the fields that the validator checks.
\<close>

lemma get_cars_checked:
  assumes "get_cars r cars_data = Inr cars"
    and "model_regex (car_validator r) = upper_ws_regex"
    and "collection_regex (car_validator r) = upper_ws_regex"
  shows "\<forall>car\<in>set cars. car_checked car"
  using get_cars_loop_checked [OF assms(2,3), of cars_data "[]" cars] assms(1)
  by (simp add: get_cars_def)

text \<open>
  C3: the validator iterates over the components and never asks that they are a list,
  so a record whose components are a dict with the key \<open>ABS\<close> passes, and the
  loader, in either mode, returns the car with that dict as its components: a car that
  does not satisfy the invariant of the data model.
\<close>

theorem loaded_car_breaks_invariant:
  "get_cars stopping_reader [record_dict] = Inr [car_dict]
   \<and> get_cars skipping_reader [record_dict] = Inr [car_dict]
   \<and> \<not> car_invariant car_dict"
proof (intro conjI)
  show "get_cars stopping_reader [record_dict] = Inr [car_dict]"
    by code_simp
  show "get_cars skipping_reader [record_dict] = Inr [car_dict]"
    by code_simp
  show "\<not> car_invariant car_dict"
    by (simp add: car_invariant_def car_dict_def)
qed

text \<open>
  C1: \<open>CarValidator.validate\<close> raises on the record with no field at all: the block
  of the price builds its message from \<open>data["model"]\<close>, which is not there.
\<close>

theorem validate_empty_record_raises:
  "CarValidator_validate v (PDict []) = Inl KeyError"
  by (simp add: CarValidator_validate_def validate_model_def validate_price_def report_def
      and_then_def getitem_def)

section \<open>Properties of the events\<close>

lemma first_occurrences_snoc:
  "first_occurrences (xs @ [x]) =
     (if x \<in> set xs then first_occurrences xs else first_occurrences xs @ [x])"
  by (simp add: first_occurrences_def)

lemma set_first_occurrences: "set (first_occurrences xs) = set xs"
  by (simp add: first_occurrences_def)

lemma distinct_first_occurrences: "distinct (first_occurrences xs)"
  by (simp add: first_occurrences_def)

lemma dict_set_absent: "k \<notin> fst ` set d \<Longrightarrow> dict_set d k v = d @ [(k, v)]"
  by (induction d k v rule: dict_set.induct) auto

lemma dict_set_present:
  "distinct ks \<Longrightarrow> k \<in> set ks \<Longrightarrow>
     dict_set (map (\<lambda>s. (s, f s)) ks) k v = map (\<lambda>s. (s, if s = k then v else f s)) ks"
proof (induction ks)
  case Nil
  then show ?case by simp
next
  case (Cons a ks)
  show ?case
  proof (cases "a = k")
    case True
    with Cons.prems have "k \<notin> set ks" by simp
    then have "map (\<lambda>s. (s, if s = k then v else f s)) ks = map (\<lambda>s. (s, f s)) ks"
      by (intro map_cong) auto
    with True show ?thesis by simp
  next
    case False
    with Cons show ?thesis by simp
  qed
qed

lemma map_of_graph: "map_of (map (\<lambda>s. (s, f s)) ks) x = (if x \<in> set ks then Some (f x) else None)"
  by (induction ks) auto

lemma Counter_snoc:
  "Counter (xs @ [x]) =
     dict_set (Counter xs) x (case map_of (Counter xs) x of None \<Rightarrow> 1 | Some n \<Rightarrow> n + 1)"
  by (simp add: Counter_def)

lemma Counter_counts:
  "Counter xs = map (\<lambda>s. (s, count_list xs s)) (first_occurrences xs)"
proof (induction xs rule: rev_induct)
  case Nil
  show ?case by (simp add: Counter_def first_occurrences_def)
next
  case (snoc x xs)
  let ?ks = "first_occurrences xs"
  show ?case
  proof (cases "x \<in> set xs")
    case True
    then have mem: "x \<in> set ?ks" by (simp add: set_first_occurrences)
    have "Counter (xs @ [x]) = dict_set (map (\<lambda>s. (s, count_list xs s)) ?ks) x (count_list xs x + 1)"
      using mem by (simp add: Counter_snoc snoc.IH map_of_graph)
    also have "\<dots> = map (\<lambda>s. (s, if s = x then count_list xs x + 1 else count_list xs s)) ?ks"
      by (rule dict_set_present [OF distinct_first_occurrences mem])
    also have "\<dots> = map (\<lambda>s. (s, count_list (xs @ [x]) s)) ?ks"
      by (intro map_cong) auto
    finally show ?thesis using True by (simp add: first_occurrences_snoc)
  next
    case False
    then have notin: "x \<notin> set ?ks" by (simp add: set_first_occurrences)
    then have nokey: "x \<notin> fst ` set (map (\<lambda>s. (s, count_list xs s)) ?ks)" by (auto simp: image_iff)
    have "Counter (xs @ [x]) = dict_set (map (\<lambda>s. (s, count_list xs s)) ?ks) x 1"
      using notin by (simp add: Counter_snoc snoc.IH map_of_graph)
    also have "\<dots> = map (\<lambda>s. (s, count_list xs s)) ?ks @ [(x, 1)]"
      by (rule dict_set_absent [OF nokey])
    also have "map (\<lambda>s. (s, count_list xs s)) ?ks = map (\<lambda>s. (s, count_list (xs @ [x]) s)) ?ks"
      using notin by (intro map_cong) auto
    finally show ?thesis using False by (simp add: first_occurrences_snoc)
  qed
qed

lemma max_default_Max: "xs \<noteq> [] \<Longrightarrow> max_default xs = Max (set xs)"
  by (cases xs) (simp_all add: max_default_def fold_max_Max)

lemma select_graph:
  "[d. (d, count) \<leftarrow> map (\<lambda>s. (s, g s)) ks, count = m] = [s \<leftarrow> ks. g s = m]"
  by (induction ks) auto


lemma Max_count_pos:
  assumes "xs \<noteq> []"
  shows "0 < Max (count_list xs ` set xs)"
proof -
  have "Max (count_list xs ` set xs) \<in> count_list xs ` set xs"
    using assms by (intro Max_in) auto
  then obtain s where "s \<in> set xs" "Max (count_list xs ` set xs) = count_list xs s" by auto
  then show ?thesis using count_list_0_iff [of xs s] by simp
qed

lemma Counter_values: "set (map snd (Counter xs)) = count_list xs ` set xs"
proof -
  have "map snd (Counter xs) = map (count_list xs) (first_occurrences xs)"
    by (simp add: Counter_counts comp_def)
  then show ?thesis by (simp add: set_first_occurrences)
qed

lemma Counter_nonempty: "xs \<noteq> [] \<Longrightarrow> map snd (Counter xs) \<noteq> []"
  using set_first_occurrences [of xs] by (auto simp: Counter_counts)

lemma most_common_of_list:
  assumes "xs \<noteq> []"
  shows "max_default (map snd (Counter xs)) = Max (count_list xs ` set xs)"
    and "[d. (d, count) \<leftarrow> Counter xs, count = m] = [s \<leftarrow> first_occurrences xs. count_list xs s = m]"
    and "set [s \<leftarrow> first_occurrences xs. count_list xs s = Max (count_list xs ` set xs)]
       = {s. count_list xs s = Max (count_list xs ` set xs)}"
proof -
  have "max_default (map snd (Counter xs)) = Max (set (map snd (Counter xs)))"
    by (rule max_default_Max [OF Counter_nonempty [OF assms]])
  also have "set (map snd (Counter xs)) = count_list xs ` set xs"
    by (rule Counter_values)
  finally show "max_default (map snd (Counter xs)) = Max (count_list xs ` set xs)" .
  have "[d. (d, count) \<leftarrow> map (\<lambda>s. (s, count_list xs s)) (first_occurrences xs), count = m]
      = [s \<leftarrow> first_occurrences xs. count_list xs s = m]"
    by (rule select_graph)
  then show "[d. (d, count) \<leftarrow> Counter xs, count = m] = [s \<leftarrow> first_occurrences xs. count_list xs s = m]"
    by (simp only: Counter_counts [symmetric])
  have pos: "0 < Max (count_list xs ` set xs)" by (rule Max_count_pos [OF assms])
  have mem: "s \<in> set xs" if "count_list xs s = Max (count_list xs ` set xs)" for s
  proof (rule ccontr)
    assume "s \<notin> set xs"
    then have "count_list xs s = 0" by (rule count_notin)
    with that pos show False by simp
  qed
  show "set [s \<leftarrow> first_occurrences xs. count_list xs s = Max (count_list xs ` set xs)]
       = {s. count_list xs s = Max (count_list xs ` set xs)}"
  proof (rule set_eqI)
    fix s
    show "s \<in> set [s \<leftarrow> first_occurrences xs. count_list xs s = Max (count_list xs ` set xs)]
        \<longleftrightarrow> s \<in> {s. count_list xs s = Max (count_list xs ` set xs)}"
      using mem [of s] by (simp only: set_filter set_first_occurrences mem_Collect_eq) blast
  qed
qed

text \<open>
  C6: \<open>get_most_common_date\<close> fails on the empty collection. On any other it returns
  the greatest number of events whose dates have the same formatted string, and the
  formatted strings that occur that often and no others, each once, in the order of
  their first occurrence.
\<close>

theorem get_most_common_date_spec:
  "get_most_common_date [] fmt = Inl ValueError
   \<and> (events \<noteq> [] \<longrightarrow>
        (\<exists>dates max_count.
           get_most_common_date events fmt = Inr (dates, max_count)
           \<and> max_count = Max (count_list [strftime (date e) fmt. e \<leftarrow> events]
                               ` set [strftime (date e) fmt. e \<leftarrow> events])
           \<and> distinct dates
           \<and> set dates = {s. count_list [strftime (date e) fmt. e \<leftarrow> events] s = max_count}
           \<and> dates = [s \<leftarrow> first_occurrences [strftime (date e) fmt. e \<leftarrow> events].
                        count_list [strftime (date e) fmt. e \<leftarrow> events] s = max_count]))"
proof (intro conjI impI)
  show "get_most_common_date [] fmt = Inl ValueError"
    by (simp add: get_most_common_date_def)
next
  let ?S = "[strftime (date e) fmt. e \<leftarrow> events]"
  let ?m = "Max (count_list ?S ` set ?S)"
  let ?ds = "[s \<leftarrow> (first_occurrences ?S) . count_list ?S s = ?m]"
  assume ne: "events \<noteq> []"
  then have S: "?S \<noteq> []" by simp
  have res: "get_most_common_date events fmt = Inr (?ds, ?m)"
    unfolding get_most_common_date_def Let_def
    by (simp only: ne if_False most_common_of_list(1,2) [OF S])
  have dist: "distinct ?ds"
    by (rule distinct_filter) (rule distinct_first_occurrences)
  have elems: "set ?ds = {s. count_list ?S s = ?m}"
    by (rule most_common_of_list(3) [OF S])
  show "\<exists>dates max_count.
           get_most_common_date events fmt = Inr (dates, max_count)
           \<and> max_count = Max (count_list ?S ` set ?S)
           \<and> distinct dates
           \<and> set dates = {s. count_list ?S s = max_count}
           \<and> dates = [s \<leftarrow> (first_occurrences ?S) . count_list ?S s = max_count]"
  proof (rule exI [of _ ?ds], rule exI [of _ ?m], intro conjI)
    show "get_most_common_date events fmt = Inr (?ds, ?m)" by (rule res)
    show "?m = Max (count_list ?S ` set ?S)" by (rule refl)
    show "distinct ?ds" by (rule dist)
    show "set ?ds = {s. count_list ?S s = ?m}" by (rule elems)
    show "?ds = [s \<leftarrow> (first_occurrences ?S) . count_list ?S s = ?m]" by (rule refl)
  qed
qed


theorem get_most_common_date_witness:
  "get_most_common_date [event_A, event_A, event_B] dmy = Inr ([''01-01-2030''], 2)"
proof -
  have "get_most_common_date [event_A, event_A, event_B] dmy = Inr ([''01-01-2030''], 2)"
    by code_simp
  with get_most_common_date_spec [of dmy "[event_A, event_A, event_B]"] show ?thesis by simp
qed

lemma get_events_loop_loaded:
  assumes "\<forall>line\<in>set lines. \<exists>errs.
      EventValidator_validate (event_validator r) now line = Inr (True, errs)"
  shows "get_events_loop r now lines acc = Inr out \<Longrightarrow>
     \<exists>loaded. out = acc @ loaded
       \<and> list_all2 (\<lambda>line ev. from_str line (date_format (event_validator r)) '';'' = Inr ev)
            lines loaded"
  using assms
proof (induction lines arbitrary: acc)
  case Nil
  then show ?case by simp
next
  case (Cons line rest)
  from Cons.prems(2) obtain errs where
    v: "EventValidator_validate (event_validator r) now line = Inr (True, errs)"
    by auto
  from Cons.prems(1) v obtain ev where
    ev: "from_str line (date_format (event_validator r)) '';'' = Inr ev"
    and rest: "get_events_loop r now rest (acc @ [ev]) = Inr out"
    by (auto split: sum.splits)
  from Cons.prems(2) have "\<forall>line\<in>set rest. \<exists>errs.
      EventValidator_validate (event_validator r) now line = Inr (True, errs)"
    by simp
  from Cons.IH [OF rest this] obtain loaded where
    "out = (acc @ [ev]) @ loaded"
    "list_all2 (\<lambda>line ev. from_str line (date_format (event_validator r)) '';'' = Inr ev)
       rest loaded"
    by blast
  with ev have "out = acc @ (ev # loaded)
      \<and> list_all2 (\<lambda>line ev. from_str line (date_format (event_validator r)) '';'' = Inr ev)
           (line # rest) (ev # loaded)"
    by simp
  then show ?case by blast
qed

lemma get_events_loop_returns:
  assumes "\<forall>line\<in>set lines.
      (\<exists>errs. EventValidator_validate (event_validator r) now line = Inr (True, errs))
      \<and> (\<exists>ev. from_str line (date_format (event_validator r)) '';'' = Inr ev)"
  shows "\<exists>out. get_events_loop r now lines acc = Inr out"
  using assms
proof (induction lines arbitrary: acc)
  case Nil
  then show ?case by simp
next
  case (Cons line rest)
  from Cons.prems obtain errs ev where
    v: "EventValidator_validate (event_validator r) now line = Inr (True, errs)"
    and ev: "from_str line (date_format (event_validator r)) '';'' = Inr ev"
    by auto
  from Cons.prems have "\<forall>line\<in>set rest.
      (\<exists>errs. EventValidator_validate (event_validator r) now line = Inr (True, errs))
      \<and> (\<exists>ev. from_str line (date_format (event_validator r)) '';'' = Inr ev)"
    by simp
  from Cons.IH [OF this, of "acc @ [ev]"] v ev show ?case by simp
qed

lemma get_events_Inr:
  "get_events r now file = Inr evs \<longleftrightarrow>
     (\<exists>loaded. get_events_loop r now (TextFileReader_read file) [] = Inr loaded
        \<and> evs = sort_key (\<lambda>event. dt_key (date event)) loaded)"
  by (auto simp: get_events_def py_sorted_def split: sum.splits)

text \<open>
  C4: when every line of the file passes the validator and is converted,
  \<open>get_events\<close> returns a list; whenever every line passes and a list is returned, it
  is in ascending order of the dates, and it holds the events of the lines, those of
  equal date in the order of their lines. The three lines of the example give A, A, B.
\<close>

theorem get_events_sorted_stable:
  "((\<forall>line\<in>set (TextFileReader_read file).
        (\<exists>errs. EventValidator_validate (event_validator r) now line = Inr (True, errs))
        \<and> (\<exists>ev. from_str line (date_format (event_validator r)) '';'' = Inr ev))
      \<longrightarrow> (\<exists>evs. get_events r now file = Inr evs))
   \<and> ((\<forall>line\<in>set (TextFileReader_read file).
          \<exists>errs. EventValidator_validate (event_validator r) now line = Inr (True, errs))
        \<and> get_events r now file = Inr evs
      \<longrightarrow> sorted (map (\<lambda>e. dt_key (date e)) evs)
          \<and> (\<exists>loaded.
                list_all2 (\<lambda>line ev. from_str line (date_format (event_validator r)) '';'' = Inr ev)
                  (TextFileReader_read file) loaded
                \<and> length evs = length loaded
                \<and> (\<forall>k. [e \<leftarrow> evs. dt_key (date e) = k] = [e \<leftarrow> loaded. dt_key (date e) = k])))
   \<and> get_events main_reader now0 [''B;02-01-2030'', ''A;01-01-2030'', ''A;01-01-2030'']
       = Inr [event_A, event_A, event_B]"
proof (intro conjI impI)
  assume "\<forall>line\<in>set (TextFileReader_read file).
        (\<exists>errs. EventValidator_validate (event_validator r) now line = Inr (True, errs))
        \<and> (\<exists>ev. from_str line (date_format (event_validator r)) '';'' = Inr ev)"
  from get_events_loop_returns [OF this, of "[]"] show "\<exists>evs. get_events r now file = Inr evs"
    by (auto simp: get_events_Inr)
next
  assume a: "(\<forall>line\<in>set (TextFileReader_read file).
          \<exists>errs. EventValidator_validate (event_validator r) now line = Inr (True, errs))
        \<and> get_events r now file = Inr evs"
  then obtain loaded where
    loop: "get_events_loop r now (TextFileReader_read file) [] = Inr loaded"
    and evs: "evs = sort_key (\<lambda>event. dt_key (date event)) loaded"
    by (auto simp: get_events_Inr)
  show "sorted (map (\<lambda>e. dt_key (date e)) evs)"
    unfolding evs by (rule sorted_sort_key)
  from a get_events_loop_loaded [OF _ loop] have
    "list_all2 (\<lambda>line ev. from_str line (date_format (event_validator r)) '';'' = Inr ev)
       (TextFileReader_read file) loaded"
    by auto
  moreover have "length evs = length loaded" by (simp add: evs)
  moreover have "\<forall>k. [e \<leftarrow> evs. dt_key (date e) = k] = [e \<leftarrow> loaded. dt_key (date e) = k]"
    unfolding evs by (simp add: sort_key_stable)
  ultimately show "\<exists>loaded.
      list_all2 (\<lambda>line ev. from_str line (date_format (event_validator r)) '';'' = Inr ev)
        (TextFileReader_read file) loaded
      \<and> length evs = length loaded
      \<and> (\<forall>k. [e \<leftarrow> evs. dt_key (date e) = k] = [e \<leftarrow> loaded. dt_key (date e) = k])"
    by blast
next
  show "get_events main_reader now0 [''B;02-01-2030'', ''A;01-01-2030'', ''A;01-01-2030'']
       = Inr [event_A, event_A, event_B]"
    by code_simp
qed

theorem get_events_sorted_stable_witness:
  "get_events main_reader now0 [''B;02-01-2030'', ''A;01-01-2030'', ''A;01-01-2030'']
     = Inr [event_A, event_A, event_B]
   \<and> sorted (map (\<lambda>e. dt_key (date e)) [event_A, event_A, event_B])"
proof -
  let ?file = "[''B;02-01-2030'', ''A;01-01-2030'', ''A;01-01-2030'']"
  have ret: "get_events main_reader now0 ?file = Inr [event_A, event_A, event_B]"
    by code_simp
  have lines: "TextFileReader_read ?file = ?file"
    by code_simp
  have b: "EventValidator_validate (event_validator main_reader) now0 ''B;02-01-2030''
      = Inr (True, [])"
    by code_simp
  have a: "EventValidator_validate (event_validator main_reader) now0 ''A;01-01-2030''
      = Inr (True, [])"
    by code_simp
  have valid: "\<forall>line\<in>set (TextFileReader_read ?file). \<exists>errs.
      EventValidator_validate (event_validator main_reader) now0 line = Inr (True, errs)"
    unfolding lines using a b by simp
  from get_events_sorted_stable [of ?file main_reader now0 "[event_A, event_A, event_B]"]
    valid ret
  show ?thesis by blast
qed

text \<open>
  C2: the line \<open>A; 01-01-2030\<close> passes the validator, which strips the two parts, and
  \<open>Event.from_str\<close> fails on it, since it parses the date with its leading space; so
  \<open>get_events\<close> raises on a file of valid lines.
\<close>

theorem validated_line_not_converted:
  "EventValidator_validate main_validator now0 ''A; 01-01-2030'' = Inr (True, [])
   \<and> from_str ''A; 01-01-2030'' (date_format main_validator) (separator main_validator)
       = Inl ValueError
   \<and> get_events main_reader now0 [''A; 01-01-2030''] = Inl ValueError"
  by code_simp

text \<open>
  C7: with the separator \<open>'; '\<close> the loader reads the line \<open>A; 1-01-2030\<close> as the
  event A of 1 January 2030; \<open>save_sorted_events\<close> writes it with \<open>';'\<close>, and the
  loader, with the same format, separator and clock, refuses the written line.
\<close>

theorem saved_events_not_reloaded:
  "get_events spaced_reader now0 [''A; 1-01-2030''] = Inr [event_A]
   \<and> save_sorted_events [event_A] (date_format (event_validator spaced_reader))
       = [''A;01-01-2030'']
   \<and> get_events spaced_reader now0 [''A;01-01-2030''] = Inl ValueError"
  by code_simp

end
